theory Spec2Isabelle
  imports Complex_Main "HOL-Library.Log_Nat"
begin

section \<open>The task list of src/components/TodoList.tsx and its edit dialog\<close>

text \<open>
  The component keeps its tasks in React state (\<open>useState\<close>); every handler computes the
  next state from the current one. The model passes that state explicitly: a handler is a
  function from the state to the next state. What the handlers take from the environment
  is a parameter: \<open>Date.now()\<close> is \<open>now\<close>, \<open>crypto.randomUUID()\<close> is \<open>uuid\<close>.

  Timestamps are JavaScript numbers holding whole milliseconds; they are modelled as
  \<open>int\<close>. An optional field (\<open>completedAt?: number\<close>) is an \<open>option\<close>: \<open>None\<close> is
  \<open>undefined\<close>. The statistics divide and multiply; there the numbers are the rationals
  that a double holds, and every operation rounds its exact result to the nearest double.

  A string is the list of its UTF-16 code units, each a number. What the component asks
  of the Unicode character database, which is no part of the repository, is an argument:
  the functions that lower-case a string take \<open>String.prototype.toLowerCase\<close> as the
  argument \<open>toLowerCase\<close>, and what is proved of them holds whatever that function is.
\<close>

subsection \<open>Data model\<close>

type_synonym jsString = "nat list"

text \<open>A string of characters below U+0100, written as a literal.\<close>

abbreviation str :: "string \<Rightarrow> jsString" where
  "str s \<equiv> map of_char s"

datatype Priority = Low | Medium | High

datatype Category = Work | Personal | Shopping | Health | Other

datatype FilterStatus = StatusAll | StatusActive | StatusCompleted

text \<open>The filter selections of type \<open>Priority | "all"\<close> and \<open>Category | "all"\<close>.\<close>

datatype 'a OrAll = AllValues | Only 'a

text \<open>
  The interface \<open>Todo\<close>. The fields \<open>id\<close>, \<open>text\<close> and \<open>notes\<close> carry a prime, since
  these names are taken in Isabelle.
\<close>

record Todo =
  id' :: jsString
  text' :: jsString
  completed :: bool
  createdAt :: int
  completedAt :: "int option"
  deadline :: "int option"
  priority :: Priority
  category :: Category
  notes' :: "jsString option"

text \<open>
  The state of the component \<open>TodoList\<close>, one field for each \<open>useState\<close>. The three
  inputs of the add form are called \<open>deadline\<close>, \<open>priority\<close> and \<open>category\<close> in the
  source; here they carry the suffix \<open>_input\<close>, to keep them apart from the fields of
  \<open>Todo\<close>. The selected deadline is a \<open>Date\<close>; the model holds its time value.
\<close>

record TodoList =
  todos :: "Todo list"
  newTodo :: jsString
  deadline_input :: "int option"
  priority_input :: Priority
  category_input :: Category
  searchQuery :: jsString
  filterStatus :: FilterStatus
  filterPriority :: "Priority OrAll"
  filterCategory :: "Category OrAll"
  editingTodo :: "Todo option"

text \<open>The initial values of the \<open>useState\<close> calls.\<close>

definition initialState :: TodoList where
  "initialState =
     \<lparr>todos = [], newTodo = [], deadline_input = None, priority_input = Medium,
      category_input = Personal, searchQuery = [], filterStatus = StatusAll,
      filterPriority = AllValues, filterCategory = AllValues, editingTodo = None\<rparr>"

subsection \<open>Strings and truthiness\<close>

text \<open>
  \<open>String.prototype.trim\<close> removes white space and line terminators from both ends: TAB,
  LF, VT, FF, CR, SPACE, NO-BREAK SPACE, U+1680, U+2000 to U+200A, U+2028, U+2029, U+202F,
  U+205F, U+3000 and U+FEFF.
\<close>

definition isWhiteSpace :: "nat \<Rightarrow> bool" where
  "isWhiteSpace c =
     (c \<in> {9, 10, 11, 12, 13, 32, 160, 5760, 8232, 8233, 8239, 8287, 12288, 65279}
      \<or> (8192 \<le> c \<and> c \<le> 8202))"

definition trim :: "jsString \<Rightarrow> jsString" where
  "trim s = rev (dropWhile isWhiteSpace (rev (dropWhile isWhiteSpace s)))"

text \<open>
  \<open>String.prototype.includes\<close>: the argument occurs as a run of consecutive characters,
  that is, the string starts with it at some position. (The name carries a prime, as
  \<open>includes\<close> is taken in Isabelle.)
\<close>

fun startsWith :: "jsString \<Rightarrow> jsString \<Rightarrow> bool" where
  "startsWith s [] = True"
| "startsWith [] (c # cs) = False"
| "startsWith (d # ds) (c # cs) = (d = c \<and> startsWith ds cs)"

fun includes' :: "jsString \<Rightarrow> jsString \<Rightarrow> bool" where
  "includes' [] x = (x = [])"
| "includes' (c # cs) x = (startsWith (c # cs) x \<or> includes' cs x)"

text \<open>
  An optional number in a condition (\<open>if (a.deadline)\<close>, \<open>t.completedAt &&\<close>) is true when
  it is neither \<open>undefined\<close> nor zero.
\<close>

definition truthy :: "int option \<Rightarrow> bool" where
  "truthy v = (case v of None \<Rightarrow> False | Some n \<Rightarrow> n \<noteq> 0)"

subsection \<open>The handlers of TodoList\<close>

definition addTodo :: "jsString \<Rightarrow> int \<Rightarrow> TodoList \<Rightarrow> TodoList" where
  "addTodo uuid now s =
     (if trim (newTodo s) \<noteq> []
      then s\<lparr>todos := todos s @
                 [\<lparr>id' = uuid, text' = trim (newTodo s), completed = False,
                   createdAt = now, completedAt = None, deadline = deadline_input s,
                   priority = priority_input s, category = category_input s,
                   notes' = None\<rparr>],
             newTodo := [], deadline_input := None, priority_input := Medium,
             category_input := Personal\<rparr>
      else s)"

definition updateTodo :: "Todo \<Rightarrow> TodoList \<Rightarrow> TodoList" where
  "updateTodo updatedTodo s =
     s\<lparr>todos := map (\<lambda>todo. if id' todo = id' updatedTodo then updatedTodo else todo) (todos s),
       editingTodo := None\<rparr>"

definition toggleTodo :: "jsString \<Rightarrow> int \<Rightarrow> TodoList \<Rightarrow> TodoList" where
  "toggleTodo i now s =
     s\<lparr>todos := map (\<lambda>todo. if id' todo = i
                            then todo\<lparr>completed := \<not> completed todo,
                                      completedAt := (if \<not> completed todo then Some now else None)\<rparr>
                            else todo) (todos s)\<rparr>"

definition deleteTodo :: "jsString \<Rightarrow> TodoList \<Rightarrow> TodoList" where
  "deleteTodo i s = s\<lparr>todos := filter (\<lambda>todo. id' todo \<noteq> i) (todos s)\<rparr>"

text \<open>
  The handlers return nothing: their TypeScript type is \<open>void\<close>, and none of them has a
  \<open>return\<close> or a \<open>throw\<close>. \<open>Undefined\<close> is what the caller of such a handler gets;
  \<open>NotFound\<close> is the report that the specification of the task store speaks of.
\<close>

datatype Returned = Undefined | NotFound

definition updateTodo_returns :: "Todo \<Rightarrow> TodoList \<Rightarrow> Returned" where
  "updateTodo_returns updatedTodo s = Undefined"

definition deleteTodo_returns :: "jsString \<Rightarrow> TodoList \<Rightarrow> Returned" where
  "deleteTodo_returns i s = Undefined"

subsection \<open>The derived lists\<close>

text \<open>
  The second \<open>filter\<close> callback of \<open>activeTodos\<close> and of \<open>completedTodos\<close>. Its first
  argument is \<open>String.prototype.toLowerCase\<close>.
\<close>

definition queryFilter :: "(jsString \<Rightarrow> jsString) \<Rightarrow> TodoList \<Rightarrow> Todo \<Rightarrow> bool" where
  "queryFilter toLowerCase s t =
     (if searchQuery s \<noteq> [] \<and> \<not> includes' (toLowerCase (text' t)) (toLowerCase (searchQuery s))
      then False
      else if filterPriority s \<noteq> AllValues \<and> Only (priority t) \<noteq> filterPriority s then False
      else if filterCategory s \<noteq> AllValues \<and> Only (category t) \<noteq> filterCategory s then False
      else True)"

definition priorityOrder :: "Priority \<Rightarrow> int" where
  "priorityOrder p = (case p of High \<Rightarrow> 0 | Medium \<Rightarrow> 1 | Low \<Rightarrow> 2)"

text \<open>The comparator that \<open>activeTodos\<close> hands to \<open>sort\<close>.\<close>

definition compareTodos :: "Todo \<Rightarrow> Todo \<Rightarrow> int" where
  "compareTodos a b =
     (if priorityOrder (priority a) \<noteq> priorityOrder (priority b)
      then priorityOrder (priority a) - priorityOrder (priority b)
      else if truthy (deadline a) \<and> truthy (deadline b) then the (deadline a) - the (deadline b)
      else if truthy (deadline a) then - 1
      else if truthy (deadline b) then 1
      else createdAt b - createdAt a)"

text \<open>
  \<open>Array.prototype.sort\<close> with a comparator is a stable sort: an element goes before
  another when the comparator is negative, and elements that compare as equal keep their
  order. The model is the insertion sort with that behaviour. (For a comparator that is a
  consistent ordering, as \<open>compareTodos\<close> is, every stable sort returns the same list.)
\<close>

fun insertSorted :: "('a \<Rightarrow> 'a \<Rightarrow> int) \<Rightarrow> 'a \<Rightarrow> 'a list \<Rightarrow> 'a list" where
  "insertSorted cmp x [] = [x]"
| "insertSorted cmp x (y # ys) = (if cmp x y \<le> 0 then x # y # ys else y # insertSorted cmp x ys)"

fun jsSort :: "('a \<Rightarrow> 'a \<Rightarrow> int) \<Rightarrow> 'a list \<Rightarrow> 'a list" where
  "jsSort cmp [] = []"
| "jsSort cmp (x # xs) = insertSorted cmp x (jsSort cmp xs)"

definition activeTodos :: "(jsString \<Rightarrow> jsString) \<Rightarrow> TodoList \<Rightarrow> Todo list" where
  "activeTodos toLowerCase s =
     jsSort compareTodos
       (filter (queryFilter toLowerCase s) (filter (\<lambda>t. \<not> completed t) (todos s)))"

definition completedTodos :: "(jsString \<Rightarrow> jsString) \<Rightarrow> TodoList \<Rightarrow> Todo list" where
  "completedTodos toLowerCase s =
     filter (queryFilter toLowerCase s) (filter (\<lambda>t. completed t) (todos s))"

definition displayedTodos :: "(jsString \<Rightarrow> jsString) \<Rightarrow> TodoList \<Rightarrow> Todo list" where
  "displayedTodos toLowerCase s =
     (if filterStatus s = StatusAll then activeTodos toLowerCase s @ completedTodos toLowerCase s
      else if filterStatus s = StatusActive then activeTodos toLowerCase s
      else completedTodos toLowerCase s)"

text \<open>\<open>isOverdue\<close> of \<open>TodoItem\<close>, and the count of the statistics.\<close>

definition isOverdue :: "int \<Rightarrow> Todo \<Rightarrow> bool" where
  "isOverdue now todo = (truthy (deadline todo) \<and> the (deadline todo) < now \<and> \<not> completed todo)"

definition overdueCount :: "int \<Rightarrow> TodoList \<Rightarrow> nat" where
  "overdueCount now s =
     length (filter (\<lambda>t. \<not> completed t \<and> truthy (deadline t) \<and> the (deadline t) < now) (todos s))"

subsection \<open>Arithmetic on doubles\<close>

text \<open>
  A JavaScript number is an IEEE 754 double: a sign, 53 significant bits and a power of
  two. \<open>/\<close>, \<open>*\<close>, \<open>+\<close> and \<open>-\<close> return the double nearest to the exact result, and of two
  nearest ones the one whose last bit is 0. \<open>fl\<close> is that rounding, for a result in the
  range of the normal doubles (between \<open>2 powi (- 1022)\<close> and \<open>2 powi 1024\<close> in absolute
  value, which the statistics never leave) or equal to 0.

  \<open>ilog2 x\<close> is the exponent of \<open>x\<close>: the integer \<open>k\<close> with
  \<open>2 powi k \<le> \<bar>x\<bar> < 2 powi (k + 1)\<close>, computed from the bit length of an integer.
\<close>

definition ilog2 :: "rat \<Rightarrow> int" where
  "ilog2 x = (if 1 \<le> \<bar>x\<bar> then bitlen \<lfloor>\<bar>x\<bar>\<rfloor> - 1 else - bitlen (\<lceil>1 / \<bar>x\<bar>\<rceil> - 1))"

text \<open>The nearest integer, and of two nearest ones the even one.\<close>

definition roundEven :: "rat \<Rightarrow> int" where
  "roundEven y =
     (let f = \<lfloor>y\<rfloor>; d = y - of_int f
      in if d < 1 / 2 then f else if 1 / 2 < d then f + 1 else if even f then f else f + 1)"

definition fl :: "rat \<Rightarrow> rat" where
  "fl x = (if x = 0 then 0
           else let e = ilog2 x - 52 in of_int (roundEven (x / 2 powi e)) * 2 powi e)"

text \<open>
  \<open>Math.round\<close>: the nearest integer, and of two nearest ones the greater. It is exact on
  the double it is given.
\<close>

definition Math_round :: "rat \<Rightarrow> int" where
  "Math_round y = \<lfloor>y + 1 / 2\<rfloor>"

subsection \<open>The statistics\<close>

definition totalTasks :: "TodoList \<Rightarrow> nat" where
  "totalTasks s = length (todos s)"

definition completedCount :: "TodoList \<Rightarrow> nat" where
  "completedCount s = length (filter (\<lambda>t. completed t) (todos s))"

definition completionRate :: "TodoList \<Rightarrow> int" where
  "completionRate s =
     (if totalTasks s > 0
      then Math_round (fl (fl (of_nat (completedCount s) / of_nat (totalTasks s)) * 100))
      else 0)"

text \<open>
  \<open>avgCompletionTime\<close>. Its local list \<open>completed\<close> is \<open>completedWithTime\<close> here; \<open>reduce\<close>
  is \<open>foldl\<close>.
\<close>

definition completedWithTime :: "TodoList \<Rightarrow> Todo list" where
  "completedWithTime s = filter (\<lambda>t. completed t \<and> truthy (completedAt t)) (todos s)"

definition avgCompletionTime :: "TodoList \<Rightarrow> int" where
  "avgCompletionTime s =
     (if length (completedWithTime s) = 0 then 0
      else let total = foldl (\<lambda>sum t. fl (sum + fl (of_int (the (completedAt t)) - of_int (createdAt t))))
                         0 (completedWithTime s)
           in Math_round (fl (fl (total / of_nat (length (completedWithTime s))) / (1000 * 60 * 60))))"

subsection \<open>The edit dialog\<close>

text \<open>
  \<open>handleSave\<close> of \<open>EditTodoDialog\<close>. The dialog is given the task \<open>todo\<close> and keeps the
  edited text, notes, deadline, priority and category in its own state; here they are
  arguments. The result is the task that \<open>onSave\<close> is called with, or \<open>None\<close> when the
  text is blank and nothing is called.
\<close>

definition handleSave ::
    "Todo \<Rightarrow> jsString \<Rightarrow> jsString \<Rightarrow> int option \<Rightarrow> Priority \<Rightarrow> Category \<Rightarrow> Todo option" where
  "handleSave todo txt nts dl pri cat =
     (if trim txt \<noteq> []
      then Some (todo\<lparr>text' := trim txt,
                      notes' := (if trim nts \<noteq> [] then Some (trim nts) else None),
                      deadline := dl, priority := pri, category := cat\<rparr>)
      else None)"

subsection \<open>User actions\<close>

text \<open>
  What the user can do to the component; the first argument of \<open>perform\<close> is
  \<open>String.prototype.toLowerCase\<close>, which the displayed list depends on. \<open>EditTodo\<close> is
  the edit button of a displayed task (\<open>onEdit\<close>, that is \<open>setEditingTodo\<close>);
  \<open>SaveEdit\<close> is the save button of the dialog, which exists while \<open>editingTodo\<close> is
  set and whose \<open>onSave\<close> is \<open>updateTodo\<close>; \<open>CloseEdit\<close> is its \<open>onClose\<close>.
\<close>

datatype Action =
    SetNewTodo jsString
  | SetDeadline "int option"
  | SetPriority Priority
  | SetCategory Category
  | AddTodo jsString int
  | ToggleTodo jsString int
  | DeleteTodo jsString
  | EditTodo Todo
  | SaveEdit jsString jsString "int option" Priority Category
  | CloseEdit
  | SetSearchQuery jsString
  | SetFilterStatus FilterStatus
  | SetFilterPriority "Priority OrAll"
  | SetFilterCategory "Category OrAll"

fun perform :: "(jsString \<Rightarrow> jsString) \<Rightarrow> Action \<Rightarrow> TodoList \<Rightarrow> TodoList" where
  "perform toLowerCase (SetNewTodo v) s = s\<lparr>newTodo := v\<rparr>"
| "perform toLowerCase (SetDeadline v) s = s\<lparr>deadline_input := v\<rparr>"
| "perform toLowerCase (SetPriority v) s = s\<lparr>priority_input := v\<rparr>"
| "perform toLowerCase (SetCategory v) s = s\<lparr>category_input := v\<rparr>"
| "perform toLowerCase (AddTodo uuid now) s = addTodo uuid now s"
| "perform toLowerCase (ToggleTodo i now) s = toggleTodo i now s"
| "perform toLowerCase (DeleteTodo i) s = deleteTodo i s"
| "perform toLowerCase (EditTodo todo) s =
     (if todo \<in> set (displayedTodos toLowerCase s) then s\<lparr>editingTodo := Some todo\<rparr> else s)"
| "perform toLowerCase (SaveEdit txt nts dl pri cat) s =
     (case editingTodo s of
        None \<Rightarrow> s
      | Some todo \<Rightarrow>
          (case handleSave todo txt nts dl pri cat of
             None \<Rightarrow> s
           | Some updatedTodo \<Rightarrow> updateTodo updatedTodo s))"
| "perform toLowerCase CloseEdit s = s\<lparr>editingTodo := None\<rparr>"
| "perform toLowerCase (SetSearchQuery v) s = s\<lparr>searchQuery := v\<rparr>"
| "perform toLowerCase (SetFilterStatus v) s = s\<lparr>filterStatus := v\<rparr>"
| "perform toLowerCase (SetFilterPriority v) s = s\<lparr>filterPriority := v\<rparr>"
| "perform toLowerCase (SetFilterCategory v) s = s\<lparr>filterCategory := v\<rparr>"

text \<open>A session: the actions one after the other, from the left.\<close>

fun performAll :: "(jsString \<Rightarrow> jsString) \<Rightarrow> Action list \<Rightarrow> TodoList \<Rightarrow> TodoList" where
  "performAll toLowerCase [] s = s"
| "performAll toLowerCase (a # as) s = performAll toLowerCase as (perform toLowerCase a s)"

text \<open>The invariant of the data model: \<open>completedAt\<close> is present exactly on completed tasks.\<close>

definition completedAtMatches :: "Todo \<Rightarrow> bool" where
  "completedAtMatches t = (completed t \<longleftrightarrow> completedAt t \<noteq> None)"

definition storeInvariant :: "TodoList \<Rightarrow> bool" where
  "storeInvariant s =
     (list_all completedAtMatches (todos s) \<and>
      (case editingTodo s of None \<Rightarrow> True | Some todo \<Rightarrow> completedAtMatches todo))"


subsection \<open>The order of the active tasks, in words\<close>

text \<open>
  \<open>displayOrder a b\<close>: the task \<open>a\<close> may stand before the task \<open>b\<close>. A higher priority
  goes first; at equal priority a task with a deadline goes before one without, two tasks
  with deadlines go by the earlier deadline, and two tasks without go by the later
  \<open>createdAt\<close>. A deadline counts as present when the field is true in a condition.
\<close>

definition displayOrder :: "Todo \<Rightarrow> Todo \<Rightarrow> bool" where
  "displayOrder a b =
     (priorityOrder (priority a) < priorityOrder (priority b) \<or>
      (priority a = priority b \<and>
       (if truthy (deadline a) \<and> truthy (deadline b) then the (deadline a) \<le> the (deadline b)
        else if truthy (deadline a) then True
        else if truthy (deadline b) then False
        else createdAt b \<le> createdAt a)))"

text \<open>
  \<open>specOrder a b\<close>: the same question for the composite key of the specification:
  priority rank, then the deadline (present before absent, the earlier first), then, among
  ties, \<open>createdAt\<close> descending. A deadline is present when the field is set.
\<close>

definition specOrder :: "Todo \<Rightarrow> Todo \<Rightarrow> bool" where
  "specOrder a b =
     (priorityOrder (priority a) < priorityOrder (priority b) \<or>
      (priority a = priority b \<and>
       (case (deadline a, deadline b) of
          (Some x, Some y) \<Rightarrow> x < y \<or> (x = y \<and> createdAt b \<le> createdAt a)
        | (Some x, None) \<Rightarrow> True
        | (None, Some y) \<Rightarrow> False
        | (None, None) \<Rightarrow> createdAt b \<le> createdAt a)))"

subsection \<open>An excerpt of toLowerCase\<close>

text \<open>
  \<open>String.prototype.toLowerCase\<close> on strings of the blocks Basic Latin, Latin-1 Supplement
  and Greek (U+0391 to U+03C9), after ECMA-262 and the Unicode character database. A
  capital letter goes to its small letter. The capital sigma U+03A3 goes to the final
  small sigma U+03C2 where a cased letter stands before it and none after it, characters
  that case ignores (such as the apostrophe) skipped on both sides; elsewhere it goes to
  the small sigma U+03C3. What lies outside the three blocks is left as it is: the
  excerpt does not know it. The excerpt serves the examples only; what is proved of the
  component is proved for every function in its place.
\<close>

definition lowerUnit :: "nat \<Rightarrow> nat" where
  "lowerUnit c =
     (if (65 \<le> c \<and> c \<le> 90) \<or> (192 \<le> c \<and> c \<le> 222 \<and> c \<noteq> 215)
         \<or> (913 \<le> c \<and> c \<le> 939 \<and> c \<noteq> 930)
      then c + 32 else c)"

definition cased :: "nat \<Rightarrow> bool" where
  "cased c =
     ((65 \<le> c \<and> c \<le> 90) \<or> (97 \<le> c \<and> c \<le> 122) \<or> c \<in> {170, 181, 186}
      \<or> (192 \<le> c \<and> c \<le> 255 \<and> c \<noteq> 215 \<and> c \<noteq> 247)
      \<or> (913 \<le> c \<and> c \<le> 969 \<and> c \<noteq> 930))"

definition caseIgnorable :: "nat \<Rightarrow> bool" where
  "caseIgnorable c = (c \<in> {39, 46, 58, 94, 96, 168, 173, 175, 180, 183, 184})"

text \<open>The next character that case does not ignore is a cased letter.\<close>

definition nextIsCased :: "jsString \<Rightarrow> bool" where
  "nextIsCased cs =
     (case dropWhile (\<lambda>c. caseIgnorable c \<and> \<not> cased c) cs of
        [] \<Rightarrow> False
      | c # rest \<Rightarrow> cased c)"

text \<open>\<open>lowerFrom before after\<close>: the characters \<open>before\<close> are done, the nearest one first.\<close>

fun lowerFrom :: "jsString \<Rightarrow> jsString \<Rightarrow> jsString" where
  "lowerFrom before [] = []"
| "lowerFrom before (c # after) =
     (if c = 931 \<and> nextIsCased before \<and> \<not> nextIsCased after then 962 else lowerUnit c)
       # lowerFrom (c # before) after"

definition lowerExcerpt :: "jsString \<Rightarrow> jsString" where
  "lowerExcerpt s = lowerFrom [] s"

subsection \<open>Example data\<close>

text \<open>
  A collection of two tasks, as a session leaves it that adds the first at time 50 and
  completes it at time 100, and adds the second at time 60; and a task that is not in it.
\<close>

definition rentTask :: Todo where
  "rentTask =
     \<lparr>id' = str ''a'', text' = str ''Pay rent'', completed = True, createdAt = 50,
      completedAt = Some 100, deadline = None, priority = Medium, category = Personal,
      notes' = None\<rparr>"

definition milkTask :: Todo where
  "milkTask =
     \<lparr>id' = str ''b'', text' = str ''Buy milk'', completed = False, createdAt = 60,
      completedAt = None, deadline = Some 900, priority = High, category = Shopping,
      notes' = None\<rparr>"

definition exampleState :: TodoList where
  "exampleState = initialState\<lparr>todos := [rentTask, milkTask]\<rparr>"

definition ghostTask :: Todo where
  "ghostTask =
     \<lparr>id' = str ''zz'', text' = str ''Not there'', completed = False, createdAt = 70,
      completedAt = None, deadline = None, priority = Low, category = Other,
      notes' = None\<rparr>"

text \<open>
  Two tasks of equal priority with the same deadline, the second created after the first;
  the calendar sets a deadline to the start of a day, so tasks due on the same day are so.
\<close>

definition reportTask :: Todo where
  "reportTask =
     \<lparr>id' = str ''c'', text' = str ''File report'', completed = False, createdAt = 1,
      completedAt = None, deadline = Some 500, priority = High, category = Work,
      notes' = None\<rparr>"

definition slidesTask :: Todo where
  "slidesTask =
     \<lparr>id' = str ''d'', text' = str ''Send slides'', completed = False, createdAt = 2,
      completedAt = None, deadline = Some 500, priority = High, category = Work,
      notes' = None\<rparr>"

definition tiedState :: TodoList where
  "tiedState = initialState\<lparr>todos := [reportTask, slidesTask]\<rparr>"

text \<open>A task whose deadline is the time 0.\<close>

definition epochTask :: Todo where
  "epochTask =
     \<lparr>id' = str ''e'', text' = str ''Archive'', completed = False, createdAt = 0,
      completedAt = None, deadline = Some 0, priority = Low, category = Other,
      notes' = None\<rparr>"

text \<open>
  The example of the statistics: four tasks, the first created at the time 0 and completed
  two hours later.
\<close>

definition quarterState :: TodoList where
  "quarterState =
     initialState\<lparr>todos :=
       [rentTask\<lparr>createdAt := 0, completedAt := Some 7200000\<rparr>, milkTask, reportTask, slidesTask]\<rparr>"

text \<open>
  Forty tasks, the first twenty-three of them completed; the task number \<open>i\<close> was created
  at the time \<open>1000 + i\<close> and, when completed, completed an hour later.
\<close>

definition numberedTask :: "nat \<Rightarrow> Todo" where
  "numberedTask i =
     \<lparr>id' = replicate (Suc i) 105, text' = str ''Water plants'', completed = (i < 23),
      createdAt = 1000 + int i,
      completedAt = (if i < 23 then Some (3601000 + int i) else None),
      deadline = None, priority = Medium, category = Personal, notes' = None\<rparr>"

definition fortyState :: TodoList where
  "fortyState = initialState\<lparr>todos := map numberedTask [0..<40]\<rparr>"

text \<open>A task created an hour before the time 0 and completed at the time 0.\<close>

definition earlyTask :: Todo where
  "earlyTask =
     \<lparr>id' = str ''f'', text' = str ''Wind clock'', completed = True, createdAt = - 3600000,
      completedAt = Some 0, deadline = None, priority = Medium, category = Personal,
      notes' = None\<rparr>"




section \<open>Properties\<close>

subsection \<open>Trimming\<close>

lemma dropWhile_all_imp_Nil: "\<forall>x\<in>set (dropWhile P xs). P x \<Longrightarrow> dropWhile P xs = []"
  by (metis hd_dropWhile hd_in_set)

lemma trim_Nil_iff: "trim s = [] \<longleftrightarrow> (\<forall>c\<in>set s. isWhiteSpace c)"
proof
  assume "trim s = []"
  then have "\<forall>x\<in>set (dropWhile isWhiteSpace s). isWhiteSpace x"
    by (simp add: trim_def dropWhile_eq_Nil_conv)
  then have "dropWhile isWhiteSpace s = []"
    by (rule dropWhile_all_imp_Nil)
  then show "\<forall>c\<in>set s. isWhiteSpace c"
    by (simp add: dropWhile_eq_Nil_conv)
next
  assume "\<forall>c\<in>set s. isWhiteSpace c"
  then have blank: "dropWhile isWhiteSpace s = []"
    by (simp add: dropWhile_eq_Nil_conv)
  show "trim s = []"
    unfolding trim_def blank by simp
qed

subsection \<open>Adding a task\<close>

text \<open>
  Claim C2. When the text of the add form is empty or consists of white space only, it is
  empty after trimming and \<open>addTodo\<close> returns the state it was given: the collection
  is unchanged, no task is created, and the handler has no other outcome.
\<close>

theorem addTodo_blank_unchanged:
  "\<forall>c\<in>set (newTodo s). isWhiteSpace c \<Longrightarrow>
     trim (newTodo s) = [] \<and> addTodo uuid now s = s \<and> todos (addTodo uuid now s) = todos s"
  by (simp add: addTodo_def trim_Nil_iff)

theorem addTodo_blank_unchanged_witness:
  "addTodo (str ''u1'') 1000 (initialState\<lparr>newTodo := str ''   ''\<rparr>) = initialState\<lparr>newTodo := str ''   ''\<rparr>
   \<and> addTodo (str ''u1'') 1000 (initialState\<lparr>newTodo := str ''''\<rparr>) = initialState\<lparr>newTodo := str ''''\<rparr>"
  using addTodo_blank_unchanged [of "initialState\<lparr>newTodo := str ''   ''\<rparr>" "(str ''u1'')" 1000]
    addTodo_blank_unchanged [of "initialState\<lparr>newTodo := str ''''\<rparr>" "(str ''u1'')" 1000]
  by (simp add: isWhiteSpace_def)




subsection \<open>The derived lists hold tasks of the collection\<close>

lemma set_insertSorted: "set (insertSorted cmp x xs) = insert x (set xs)"
  by (induction xs) auto

lemma set_jsSort: "set (jsSort cmp xs) = set xs"
  by (induction xs) (auto simp: set_insertSorted)

lemma displayedTodos_subset: "t \<in> set (displayedTodos toLowerCase s) \<Longrightarrow> t \<in> set (todos s)"
  by (auto simp: displayedTodos_def activeTodos_def completedTodos_def set_jsSort split: if_splits)

subsection \<open>The invariant of completedAt\<close>

lemma storeInvariant_initialState: "storeInvariant initialState"
  by (simp add: storeInvariant_def initialState_def)

lemma storeInvariant_addTodo: "storeInvariant s \<Longrightarrow> storeInvariant (addTodo uuid now s)"
  by (simp add: storeInvariant_def addTodo_def completedAtMatches_def)

lemma storeInvariant_toggleTodo: "storeInvariant s \<Longrightarrow> storeInvariant (toggleTodo i now s)"
  by (auto simp: storeInvariant_def toggleTodo_def list_all_iff completedAtMatches_def)

lemma storeInvariant_deleteTodo: "storeInvariant s \<Longrightarrow> storeInvariant (deleteTodo i s)"
  by (auto simp: storeInvariant_def deleteTodo_def list_all_iff)

lemma storeInvariant_updateTodo:
  "storeInvariant s \<Longrightarrow> completedAtMatches u \<Longrightarrow> storeInvariant (updateTodo u s)"
  by (auto simp: storeInvariant_def updateTodo_def list_all_iff)

lemma completedAtMatches_handleSave:
  "completedAtMatches todo \<Longrightarrow> handleSave todo txt nts dl pri cat = Some u \<Longrightarrow> completedAtMatches u"
  by (auto simp: handleSave_def completedAtMatches_def split: if_splits)

lemma storeInvariant_perform: "storeInvariant s \<Longrightarrow> storeInvariant (perform toLowerCase a s)"
proof (cases a)
  case (AddTodo uuid now)
  assume "storeInvariant s"
  then show ?thesis using AddTodo by (simp add: storeInvariant_addTodo)
next
  case (ToggleTodo i now)
  assume "storeInvariant s"
  then show ?thesis using ToggleTodo by (simp add: storeInvariant_toggleTodo)
next
  case (DeleteTodo i)
  assume "storeInvariant s"
  then show ?thesis using DeleteTodo by (simp add: storeInvariant_deleteTodo)
next
  case (EditTodo todo)
  assume inv: "storeInvariant s"
  show ?thesis
  proof (cases "todo \<in> set (displayedTodos toLowerCase s)")
    case True
    then have "todo \<in> set (todos s)" by (rule displayedTodos_subset)
    with inv have "completedAtMatches todo"
      by (simp add: storeInvariant_def list_all_iff)
    with inv True EditTodo show ?thesis
      by (simp add: storeInvariant_def)
  next
    case False
    with inv EditTodo show ?thesis by simp
  qed
next
  case (SaveEdit tx nts dl pri cat)
  assume inv: "storeInvariant s"
  show ?thesis
  proof (cases "editingTodo s")
    case None
    with inv SaveEdit show ?thesis by simp
  next
    case (Some todo)
    with inv have m: "completedAtMatches todo" by (simp add: storeInvariant_def)
    show ?thesis
    proof (cases "handleSave todo tx nts dl pri cat")
      case None
      with inv SaveEdit Some show ?thesis by simp
    next
      case (Some u)
      with m have "completedAtMatches u" by (rule completedAtMatches_handleSave)
      with inv have "storeInvariant (updateTodo u s)" by (rule storeInvariant_updateTodo)
      with SaveEdit \<open>editingTodo s = Some todo\<close> Some show ?thesis by simp
    qed
  qed
qed (simp_all add: storeInvariant_def)

lemma storeInvariant_performAll: "storeInvariant s \<Longrightarrow> storeInvariant (performAll toLowerCase as s)"
  by (induction as arbitrary: s) (simp_all add: storeInvariant_perform)

text \<open>
  Claim C1. In every state that a session reaches from the initial state, every task of
  the collection has \<open>completedAt\<close> present if and only if it is completed. The
  invariant holds at the start, and every action keeps it: adding, toggling, deleting,
  and editing through the dialog, whose task is a copy of a task of the collection and so
  has the property itself. (The invariant of the state speaks of the task held by the
  open dialog too, since saving writes that task back.)
\<close>

theorem completedAt_iff_completed:
  "storeInvariant initialState
   \<and> (storeInvariant s \<longrightarrow> storeInvariant (perform toLowerCase a s))
   \<and> (\<forall>t\<in>set (todos (performAll toLowerCase as initialState)). completed t \<longleftrightarrow> completedAt t \<noteq> None)"
proof -
  have "storeInvariant (performAll toLowerCase as initialState)"
    using storeInvariant_initialState by (rule storeInvariant_performAll)
  then have "\<forall>t\<in>set (todos (performAll toLowerCase as initialState)). completed t \<longleftrightarrow> completedAt t \<noteq> None"
    by (simp add: storeInvariant_def list_all_iff completedAtMatches_def)
  then show ?thesis
    using storeInvariant_initialState storeInvariant_perform by blast
qed

theorem completedAt_iff_completed_witness:
  "todos (performAll lowerExcerpt [SetNewTodo (str ''Buy milk''), AddTodo (str ''u1'') 10, ToggleTodo (str ''u1'') 20] initialState) =
     [\<lparr>id' = str ''u1'', text' = str ''Buy milk'', completed = True, createdAt = 10,
       completedAt = Some 20, deadline = None, priority = Medium, category = Personal,
       notes' = None\<rparr>]
   \<and> list_all (\<lambda>t. completed t \<longleftrightarrow> completedAt t \<noteq> None)
        (todos (performAll lowerExcerpt [SetNewTodo (str ''Buy milk''), AddTodo (str ''u1'') 10, ToggleTodo (str ''u1'') 20] initialState))
   \<and> storeInvariant (perform lowerExcerpt (ToggleTodo (str ''u1'') 20) initialState)"
proof -
  have run: "todos (performAll lowerExcerpt [SetNewTodo (str ''Buy milk''), AddTodo (str ''u1'') 10, ToggleTodo (str ''u1'') 20] initialState) =
     [\<lparr>id' = str ''u1'', text' = str ''Buy milk'', completed = True, createdAt = 10,
       completedAt = Some 20, deadline = None, priority = Medium, category = Personal,
       notes' = None\<rparr>]"
    by (simp add: initialState_def addTodo_def toggleTodo_def trim_def isWhiteSpace_def)
  have inv: "list_all (\<lambda>t. completed t \<longleftrightarrow> completedAt t \<noteq> None)
        (todos (performAll lowerExcerpt [SetNewTodo (str ''Buy milk''), AddTodo (str ''u1'') 10, ToggleTodo (str ''u1'') 20] initialState))
      \<and> storeInvariant (perform lowerExcerpt (ToggleTodo (str ''u1'') 20) initialState)"
    using completedAt_iff_completed
      [of initialState lowerExcerpt "ToggleTodo (str ''u1'') 20"
          "[SetNewTodo (str ''Buy milk''), AddTodo (str ''u1'') 10, ToggleTodo (str ''u1'') 20]"]
    by (simp only: list_all_iff) blast
  show ?thesis using run inv by (rule conjI)
qed

subsection \<open>Toggling twice\<close>

text \<open>
  Claim C8, as amended. Toggling a task twice in succession leaves \<open>completed\<close> as it
  was, and every other field but \<open>completedAt\<close>, and every other task. A task that was
  not completed has no \<open>completedAt\<close> afterwards, so with the invariant of the data model
  it is the task it was. A task that was completed has \<open>completedAt\<close> present again, but
  set to the time of the second toggle: its earlier value is not restored.
\<close>

theorem toggle_twice:
  "let s2 = toggleTodo i n2 (toggleTodo i n1 s)
   in length (todos s2) = length (todos s) \<and>
      (\<forall>k<length (todos s).
         let t = todos s ! k; t2 = todos s2 ! k
         in (id' t \<noteq> i \<longrightarrow> t2 = t) \<and>
            (id' t = i \<longrightarrow>
               completed t2 = completed t \<and>
               completedAt t2 = (if completed t then Some n2 else None) \<and>
               t2 = t\<lparr>completedAt := (if completed t then Some n2 else None)\<rparr> \<and>
               (\<not> completed t \<and> completedAt t = None \<longrightarrow> t2 = t)))"
  by (simp add: toggleTodo_def Let_def)

theorem toggle_twice_witness:
  "todos (toggleTodo (str ''b'') 300 (toggleTodo (str ''b'') 200 exampleState)) ! 1 = milkTask
   \<and> todos (toggleTodo (str ''b'') 300 (toggleTodo (str ''b'') 200 exampleState)) ! 0 = rentTask
   \<and> todos (toggleTodo (str ''a'') 300 (toggleTodo (str ''a'') 200 exampleState)) ! 0 =
       rentTask\<lparr>completedAt := Some 300\<rparr>"
proof -
  note b = toggle_twice [of "(str ''b'')" 300 200 exampleState, unfolded Let_def, THEN conjunct2, THEN spec]
  note a = toggle_twice [of "(str ''a'')" 300 200 exampleState, unfolded Let_def, THEN conjunct2, THEN spec]
  show ?thesis
    using b [of 1] b [of 0] a [of 0]
    by (simp add: exampleState_def rentTask_def milkTask_def)
qed

text \<open>
  Claim C8 as it is stated fails on a completed task: \<open>rentTask\<close> was completed at time
  100; toggled at the times 200 and 300 it is completed again, with \<open>completedAt\<close> 300.
\<close>

theorem toggle_twice_counterexample:
  "completedAt (todos exampleState ! 0) = Some 100
   \<and> completedAt (todos (toggleTodo (str ''a'') 300 (toggleTodo (str ''a'') 200 exampleState)) ! 0) = Some 300
   \<and> completedAt (todos (toggleTodo (str ''a'') 300 (toggleTodo (str ''a'') 200 exampleState)) ! 0)
       \<noteq> completedAt (todos exampleState ! 0)"
  by (simp add: toggleTodo_def exampleState_def rentTask_def milkTask_def)

subsection \<open>Identifiers that are not in the collection\<close>

lemma update_absent:
  assumes "id' u \<notin> set (map id' (todos s))"
  shows "todos (updateTodo u s) = todos s"
proof -
  have "id' t \<noteq> id' u" if "t \<in> set (todos s)" for t
    using that assms by (metis image_eqI set_map)
  then show ?thesis
    by (simp add: updateTodo_def map_idI)
qed

lemma delete_absent: "i \<notin> set (map id' (todos s)) \<Longrightarrow> todos (deleteTodo i s) = todos s"
  by (auto simp: deleteTodo_def filter_id_conv)

text \<open>
  Claim C9, as amended. For an identifier that no task of the collection has,
  \<open>updateTodo\<close> and \<open>deleteTodo\<close> leave the collection as it is: \<open>deleteTodo\<close> returns the
  state it was given, \<open>updateTodo\<close> that state with the dialog closed. Neither reports
  anything: both return \<open>undefined\<close>, as they do for an identifier that is present, and
  neither can throw.
\<close>

theorem unknown_id_noop:
  assumes "id' u \<notin> set (map id' (todos s))" and "i \<notin> set (map id' (todos s))"
  shows "todos (updateTodo u s) = todos s \<and> updateTodo u s = s\<lparr>editingTodo := None\<rparr>
         \<and> updateTodo_returns u s = Undefined
         \<and> todos (deleteTodo i s) = todos s \<and> deleteTodo i s = s
         \<and> deleteTodo_returns i s = Undefined"
proof -
  have u: "todos (updateTodo u s) = todos s" using assms(1) by (rule update_absent)
  have d: "todos (deleteTodo i s) = todos s" using assms(2) by (rule delete_absent)
  have "updateTodo u s = s\<lparr>editingTodo := None, todos := todos (updateTodo u s)\<rparr>"
    by (simp add: updateTodo_def)
  then have u': "updateTodo u s = s\<lparr>editingTodo := None\<rparr>" by (simp add: u)
  have "deleteTodo i s = s\<lparr>todos := todos (deleteTodo i s)\<rparr>"
    by (simp add: deleteTodo_def)
  then have d': "deleteTodo i s = s" by (simp add: d)
  show ?thesis
    using u u' d d' by (simp add: updateTodo_returns_def deleteTodo_returns_def)
qed

theorem unknown_id_noop_witness:
  "todos (updateTodo ghostTask exampleState) = [rentTask, milkTask]
   \<and> todos (deleteTodo (str ''zz'') exampleState) = [rentTask, milkTask]
   \<and> updateTodo_returns ghostTask exampleState = Undefined"
proof -
  have absent: "id' ghostTask \<notin> set (map id' (todos exampleState))"
    "(str ''zz'') \<notin> set (map id' (todos exampleState))"
    by (simp_all add: ghostTask_def exampleState_def rentTask_def milkTask_def)
  show ?thesis
    using unknown_id_noop [OF absent] by (simp add: exampleState_def)
qed

text \<open>
  Claim C9 as it is stated fails where it has the update report \<open>NotFound\<close>: for
  \<open>ghostTask\<close>, whose identifier is not in the collection, \<open>updateTodo\<close> returns
  \<open>undefined\<close>, as \<open>deleteTodo\<close> does.
\<close>

theorem unknown_id_counterexample:
  "id' ghostTask \<notin> set (map id' (todos exampleState))
   \<and> updateTodo_returns ghostTask exampleState \<noteq> NotFound
   \<and> deleteTodo_returns (id' ghostTask) exampleState \<noteq> NotFound"
  by (simp add: ghostTask_def exampleState_def rentTask_def milkTask_def
      updateTodo_returns_def deleteTodo_returns_def)

subsection \<open>Saving an edit\<close>

text \<open>
  Claim C10. The dialog is opened on a displayed task (\<open>EditTodo\<close>) and saved
  (\<open>SaveEdit\<close>); it is modal, so nothing happens in between. In a collection whose
  identifiers are distinct, this leaves \<open>completed\<close>, \<open>completedAt\<close>, \<open>id\<close> and
  \<open>createdAt\<close> of every task as they were, whatever was entered in the dialog, and
  leaves every task with another identifier as it was.
\<close>

theorem save_edit_frame:
  assumes "distinct (map id' (todos s))" and "e \<in> set (displayedTodos toLowerCase s)"
  shows "let s' = perform toLowerCase (SaveEdit tx nts dl pri cat) (perform toLowerCase (EditTodo e) s)
         in length (todos s') = length (todos s) \<and>
            (\<forall>k<length (todos s).
               completed (todos s' ! k) = completed (todos s ! k) \<and>
               completedAt (todos s' ! k) = completedAt (todos s ! k) \<and>
               id' (todos s' ! k) = id' (todos s ! k) \<and>
               createdAt (todos s' ! k) = createdAt (todos s ! k) \<and>
               (id' (todos s ! k) \<noteq> id' e \<longrightarrow> todos s' ! k = todos s ! k))"
proof -
  have mem: "e \<in> set (todos s)" using assms(2) by (rule displayedTodos_subset)
  have same: "t = e" if "t \<in> set (todos s)" "id' t = id' e" for t
    using that mem assms(1) by (meson distinct_map inj_onD)
  show ?thesis
  proof (cases "trim tx = []")
    case True
    then show ?thesis using assms(2) by (simp add: handleSave_def Let_def)
  next
    case False
    have "\<And>k. k < length (todos s) \<Longrightarrow> id' (todos s ! k) = id' e \<Longrightarrow> todos s ! k = e"
      using same by simp
    then show ?thesis using False assms(2)
      by (auto simp: handleSave_def Let_def updateTodo_def)
  qed
qed

theorem save_edit_frame_witness:
  "completed (todos (perform lowerExcerpt (SaveEdit (str ''Pay the rent '') (str ''by bank'') (Some 500) High Work)
                      (perform lowerExcerpt (EditTodo rentTask) exampleState)) ! 0)
   \<and> completedAt (todos (perform lowerExcerpt (SaveEdit (str ''Pay the rent '') (str ''by bank'') (Some 500) High Work)
                      (perform lowerExcerpt (EditTodo rentTask) exampleState)) ! 0) = Some 100
   \<and> createdAt (todos (perform lowerExcerpt (SaveEdit (str ''Pay the rent '') (str ''by bank'') (Some 500) High Work)
                      (perform lowerExcerpt (EditTodo rentTask) exampleState)) ! 0) = 50
   \<and> todos (perform lowerExcerpt (SaveEdit (str ''Pay the rent '') (str ''by bank'') (Some 500) High Work)
                      (perform lowerExcerpt (EditTodo rentTask) exampleState)) ! 1 = milkTask
   \<and> text' (todos (perform lowerExcerpt (SaveEdit (str ''Pay the rent '') (str ''by bank'') (Some 500) High Work)
                      (perform lowerExcerpt (EditTodo rentTask) exampleState)) ! 0) = str ''Pay the rent''"
proof -
  have d: "distinct (map id' (todos exampleState))"
    by (simp add: exampleState_def rentTask_def milkTask_def)
  have m: "rentTask \<in> set (displayedTodos lowerExcerpt exampleState)"
    by (simp add: displayedTodos_def activeTodos_def completedTodos_def queryFilter_def
        exampleState_def initialState_def rentTask_def milkTask_def)
  note f = save_edit_frame [OF d m, of "(str ''Pay the rent '')" "(str ''by bank'')" "Some 500" High Work,
      unfolded Let_def, THEN conjunct2, THEN spec]
  have ev: "text' (todos (perform lowerExcerpt (SaveEdit (str ''Pay the rent '') (str ''by bank'') (Some 500) High Work)
                      (perform lowerExcerpt (EditTodo rentTask) exampleState)) ! 0) = str ''Pay the rent''"
    using m by (simp add: handleSave_def updateTodo_def trim_def isWhiteSpace_def)
      (simp add: exampleState_def rentTask_def milkTask_def)
  have vals: "todos exampleState ! 0 = rentTask" "todos exampleState ! 1 = milkTask"
    "length (todos exampleState) = 2" "completed rentTask" "completedAt rentTask = Some 100"
    "createdAt rentTask = 50" "id' milkTask \<noteq> id' rentTask"
    by (simp_all add: exampleState_def rentTask_def milkTask_def)
  show ?thesis
    using f [of 0] f [of 1] ev by (simp only: vals) simp
qed

subsection \<open>Filtering\<close>








subsection \<open>The order of the active tasks\<close>

lemma priorityOrder_inj: "priorityOrder p = priorityOrder q \<longleftrightarrow> p = q"
  by (cases p; cases q) (simp_all add: priorityOrder_def)

lemma compareTodos_le: "compareTodos a b \<le> 0 \<longleftrightarrow> displayOrder a b"
  by (auto simp: compareTodos_def displayOrder_def priorityOrder_inj[symmetric])

lemma displayOrder_total: "displayOrder a b \<or> displayOrder b a"
  by (auto simp: displayOrder_def priorityOrder_inj[symmetric])

lemma displayOrder_trans: "displayOrder a b \<Longrightarrow> displayOrder b c \<Longrightarrow> displayOrder a c"
  by (auto simp: displayOrder_def priorityOrder_inj[symmetric] split: if_splits)

lemma sorted_insertSorted:
  assumes "sorted_wrt displayOrder xs"
  shows "sorted_wrt displayOrder (insertSorted compareTodos x xs)"
  using assms
proof (induction xs)
  case Nil
  then show ?case by simp
next
  case (Cons y ys)
  show ?case
  proof (cases "compareTodos x y \<le> 0")
    case True
    then have xy: "displayOrder x y" by (simp add: compareTodos_le)
    have "\<forall>z\<in>set ys. displayOrder x z"
      using Cons.prems xy displayOrder_trans by auto
    with True xy Cons.prems show ?thesis by simp
  next
    case False
    then have "displayOrder y x"
      using displayOrder_total [of x y] by (simp add: compareTodos_le)
    with False Cons show ?thesis
      by (auto simp: set_insertSorted)
  qed
qed

lemma sorted_jsSort: "sorted_wrt displayOrder (jsSort compareTodos xs)"
  by (induction xs) (simp_all add: sorted_insertSorted)

lemma filter_insertSorted:
  assumes "\<And>y z. P y \<Longrightarrow> P z \<Longrightarrow> cmp y z \<le> 0"
  shows "filter P (insertSorted cmp x xs) = filter P (x # xs)"
  using assms by (induction xs) auto

lemma filter_jsSort:
  assumes "\<And>y z. P y \<Longrightarrow> P z \<Longrightarrow> cmp y z \<le> 0"
  shows "filter P (jsSort cmp xs) = filter P xs"
  using assms by (induction xs) (simp_all add: filter_insertSorted)

lemma ties_stay:
  "filter (\<lambda>t. displayOrder t x \<and> displayOrder x t) (jsSort compareTodos xs) =
   filter (\<lambda>t. displayOrder t x \<and> displayOrder x t) xs"
proof (rule filter_jsSort)
  fix y z
  assume "displayOrder y x \<and> displayOrder x y" "displayOrder z x \<and> displayOrder x z"
  then have "displayOrder y z" using displayOrder_trans by blast
  then show "compareTodos y z \<le> 0" by (simp add: compareTodos_le)
qed

text \<open>
  Claim C5, as amended. The active tasks are displayed in the order \<open>displayOrder\<close>: by
  priority rank; at equal priority the tasks with a deadline before those without, and
  those with a deadline by the earlier deadline; the tasks without a deadline by
  \<open>createdAt\<close> descending. Tasks that this order does not tell apart, such as two tasks of
  equal priority with the same deadline, keep the order they have in the collection,
  whatever their \<open>createdAt\<close>. A deadline of 0 counts as no deadline. The three tasks of
  the example, given as A, B, C, are displayed as B, A, C.
\<close>

theorem activeTodos_sorted:
  "sorted_wrt displayOrder (activeTodos toLowerCase s)
   \<and> filter (\<lambda>t. displayOrder t x \<and> displayOrder x t) (activeTodos toLowerCase s) =
       filter (\<lambda>t. displayOrder t x \<and> displayOrder x t)
         (filter (queryFilter toLowerCase s) (filter (\<lambda>t. \<not> completed t) (todos s)))
   \<and> (priority a = High \<and> deadline a = None \<and> priority b = High \<and> deadline b = Some 5
        \<and> priority c = Medium \<and> deadline c = Some 1
        \<and> \<not> completed a \<and> \<not> completed b \<and> \<not> completed c
      \<longrightarrow> activeTodos toLowerCase (initialState\<lparr>todos := [a, b, c]\<rparr>) = [b, a, c])"
proof -
  have abc: "activeTodos toLowerCase (initialState\<lparr>todos := [a, b, c]\<rparr>) = [b, a, c]"
    if "priority a = High" "deadline a = None" "priority b = High" "deadline b = Some 5"
      "priority c = Medium" "deadline c = Some 1" "\<not> completed a" "\<not> completed b" "\<not> completed c"
    using that
    by (simp add: activeTodos_def queryFilter_def initialState_def compareTodos_def
        priorityOrder_def truthy_def)
  show ?thesis
    using abc by (simp add: activeTodos_def sorted_jsSort ties_stay)
qed

theorem activeTodos_sorted_witness:
  "activeTodos lowerExcerpt (initialState\<lparr>todos := [rentTask\<lparr>completed := False, priority := High\<rparr>,
       milkTask\<lparr>deadline := Some 5\<rparr>, reportTask\<lparr>priority := Medium, deadline := Some 1\<rparr>]\<rparr>) =
     [milkTask\<lparr>deadline := Some 5\<rparr>, rentTask\<lparr>completed := False, priority := High\<rparr>,
      reportTask\<lparr>priority := Medium, deadline := Some 1\<rparr>]
   \<and> sorted_wrt displayOrder (activeTodos lowerExcerpt tiedState)"
  using activeTodos_sorted [of lowerExcerpt tiedState reportTask "rentTask\<lparr>completed := False, priority := High\<rparr>"
      "milkTask\<lparr>deadline := Some 5\<rparr>" "reportTask\<lparr>priority := Medium, deadline := Some 1\<rparr>"]
  by (simp add: rentTask_def milkTask_def reportTask_def)

text \<open>
  Claim C5 as it is stated fails on ties between deadlines: \<open>reportTask\<close> and
  \<open>slidesTask\<close> have the same priority and the same deadline, and \<open>slidesTask\<close> was created
  later. By \<open>createdAt\<close> descending it would go first; the comparator returns 0 for the
  pair and the list stays in the order of the collection. It fails too for a deadline at
  the time 0: \<open>epochTask\<close> has one and \<open>ghostTask\<close>, of the same priority, has none, and
  \<open>ghostTask\<close>, created later, goes first.
\<close>

theorem activeTodos_sorted_counterexample:
  "activeTodos lowerExcerpt tiedState = [reportTask, slidesTask]
   \<and> \<not> specOrder reportTask slidesTask
   \<and> \<not> sorted_wrt specOrder (activeTodos lowerExcerpt tiedState)
   \<and> activeTodos lowerExcerpt (initialState\<lparr>todos := [epochTask, ghostTask]\<rparr>) = [ghostTask, epochTask]
   \<and> \<not> specOrder ghostTask epochTask"
proof -
  have a: "activeTodos lowerExcerpt tiedState = [reportTask, slidesTask]"
    by (simp add: activeTodos_def tiedState_def queryFilter_def initialState_def compareTodos_def
        priorityOrder_def truthy_def reportTask_def slidesTask_def)
  have b: "\<not> specOrder reportTask slidesTask"
    by (simp add: specOrder_def reportTask_def slidesTask_def)
  have c: "activeTodos lowerExcerpt (initialState\<lparr>todos := [epochTask, ghostTask]\<rparr>) = [ghostTask, epochTask]"
    by (simp add: activeTodos_def queryFilter_def initialState_def compareTodos_def
        priorityOrder_def truthy_def epochTask_def ghostTask_def)
  have d: "\<not> specOrder ghostTask epochTask"
    by (simp add: specOrder_def epochTask_def ghostTask_def)
  show ?thesis using a b c d by simp
qed

subsection \<open>Overdue tasks\<close>

text \<open>
  Claim C6, as amended. A task is overdue if and only if it has a deadline that is not the
  time 0 and is strictly less than the current time, and the task is not completed. The
  count of the statistics counts exactly these tasks.
\<close>

theorem isOverdue_iff:
  "(isOverdue now t \<longleftrightarrow> (\<exists>d. deadline t = Some d \<and> d \<noteq> 0 \<and> d < now) \<and> \<not> completed t)
   \<and> overdueCount now s = length (filter (isOverdue now) (todos s))"
proof -
  have "(\<lambda>t. \<not> completed t \<and> truthy (deadline t) \<and> the (deadline t) < now) = isOverdue now"
    by (auto simp: isOverdue_def fun_eq_iff)
  then have "overdueCount now s = length (filter (isOverdue now) (todos s))"
    by (simp add: overdueCount_def)
  moreover have "isOverdue now t \<longleftrightarrow> (\<exists>d. deadline t = Some d \<and> d \<noteq> 0 \<and> d < now) \<and> \<not> completed t"
    by (cases "deadline t") (auto simp: isOverdue_def truthy_def)
  ultimately show ?thesis by simp
qed

theorem isOverdue_iff_witness:
  "isOverdue 901 milkTask \<and> \<not> isOverdue 900 milkTask
   \<and> \<not> isOverdue 901 (milkTask\<lparr>completed := True\<rparr>)
   \<and> overdueCount 901 exampleState = length (filter (isOverdue 901) (todos exampleState))"
  using isOverdue_iff [of 901 milkTask exampleState] isOverdue_iff [of 900 milkTask exampleState]
    isOverdue_iff [of 901 "milkTask\<lparr>completed := True\<rparr>" exampleState]
  by (simp add: milkTask_def)

text \<open>
  Claim C6 as it is stated fails for a deadline at the time 0, which the condition
  \<open>todo.deadline && ...\<close> takes for a missing one: at the time 1, \<open>epochTask\<close> has a
  deadline in the past and is not completed, and is not overdue.
\<close>

theorem isOverdue_counterexample:
  "deadline epochTask = Some 0 \<and> (0::int) < 1 \<and> \<not> completed epochTask
   \<and> \<not> isOverdue 1 epochTask"
  by (simp add: epochTask_def isOverdue_def truthy_def)

subsection \<open>Rounding to doubles\<close>

text \<open>
  \<open>ilog2\<close> is the exponent it is meant to be, so \<open>fl x\<close> has 53 significant bits; rounding
  moves a number by at most the fraction \<open>1 / 2 ^ 53\<close> of itself; and a number that needs no
  more than 53 bits, such as a whole number up to \<open>2 ^ 53\<close> or a half of one, is not moved.
\<close>

lemma powi_nonneg_eq: "0 \<le> k \<Longrightarrow> (2::rat) powi k = 2 ^ nat k"
  by (simp add: power_int_def)

lemma powi_neg_eq: "0 \<le> k \<Longrightarrow> (2::rat) powi (- k) = 1 / 2 ^ nat k"
  by (simp add: power_int_def power_one_over)

lemma bitlen_pos: "0 < m \<Longrightarrow> 1 \<le> bitlen m"
  using bitlen_eq_zero_iff [of m] bitlen_nonneg [of m] by linarith

lemma ilog2_bounds:
  assumes "x \<noteq> 0"
  shows "2 powi ilog2 x \<le> \<bar>x\<bar> \<and> \<bar>x\<bar> < 2 powi (ilog2 x + 1)"
proof (cases "1 \<le> \<bar>x\<bar>")
  case True
  define f where "f = \<lfloor>\<bar>x\<bar>\<rfloor>"
  have fpos: "0 < f" using True by (simp add: f_def)
  have b1: "1 \<le> bitlen f" using fpos by (rule bitlen_pos)
  have lo: "2 ^ nat (bitlen f - 1) \<le> f" and hi: "f < 2 ^ nat (bitlen f)"
    using bitlen_bounds [OF fpos] by simp_all
  have il: "ilog2 x = bitlen f - 1" using True by (simp add: ilog2_def f_def)
  have "(2::rat) ^ nat (bitlen f - 1) = of_int (2 ^ nat (bitlen f - 1))" by simp
  also have "\<dots> \<le> of_int f" using lo by (simp only: of_int_le_iff)
  also have "\<dots> \<le> \<bar>x\<bar>" by (simp add: f_def)
  finally have l: "2 powi ilog2 x \<le> \<bar>x\<bar>"
    using b1 by (simp add: il powi_nonneg_eq)
  have "f + 1 \<le> 2 ^ nat (bitlen f)" using hi by simp
  then have "(of_int (f + 1) :: rat) \<le> of_int (2 ^ nat (bitlen f))"
    by (simp only: of_int_le_iff)
  moreover have "\<bar>x\<bar> < of_int (f + 1)" unfolding f_def by linarith
  ultimately have "\<bar>x\<bar> < 2 ^ nat (bitlen f)" by simp
  then have u: "\<bar>x\<bar> < 2 powi (ilog2 x + 1)"
    using b1 by (simp add: il powi_nonneg_eq)
  from l u show ?thesis ..
next
  case False
  define y where "y = 1 / \<bar>x\<bar>"
  define m where "m = \<lceil>y\<rceil> - 1"
  have xpos: "0 < \<bar>x\<bar>" using assms by simp
  have y1: "1 < y" using False xpos by (simp add: y_def)
  have mpos: "0 < m" using y1 by (simp add: m_def less_ceiling_iff)
  have b1: "1 \<le> bitlen m" using mpos by (rule bitlen_pos)
  have lo: "2 ^ nat (bitlen m - 1) \<le> m" and hi: "m < 2 ^ nat (bitlen m)"
    using bitlen_bounds [OF mpos] by simp_all
  have il: "ilog2 x = - bitlen m" using False by (simp add: ilog2_def m_def y_def)
  have my: "of_int m < y" by (simp add: m_def) linarith
  have ym: "y \<le> of_int (m + 1)" by (simp add: m_def)
  have "m + 1 \<le> 2 ^ nat (bitlen m)" using hi by simp
  then have "(of_int (m + 1) :: rat) \<le> of_int (2 ^ nat (bitlen m))"
    by (simp only: of_int_le_iff)
  with ym have "y \<le> 2 ^ nat (bitlen m)" by simp
  then have "1 \<le> 2 ^ nat (bitlen m) * \<bar>x\<bar>"
    using xpos by (simp add: y_def field_simps)
  then have "1 / 2 ^ nat (bitlen m) \<le> \<bar>x\<bar>"
    by (simp add: field_simps)
  then have l: "2 powi ilog2 x \<le> \<bar>x\<bar>"
    using b1 by (simp add: il powi_neg_eq)
  have "(2::rat) ^ nat (bitlen m - 1) = of_int (2 ^ nat (bitlen m - 1))" by simp
  also have "\<dots> \<le> of_int m" using lo by (simp only: of_int_le_iff)
  also have "\<dots> < y" by (rule my)
  finally have "2 ^ nat (bitlen m - 1) * \<bar>x\<bar> < 1"
    using xpos by (simp add: y_def field_simps)
  then have "\<bar>x\<bar> < 1 / 2 ^ nat (bitlen m - 1)"
    by (simp add: field_simps)
  moreover have "ilog2 x + 1 = - (bitlen m - 1)" by (simp add: il)
  ultimately have u: "\<bar>x\<bar> < 2 powi (ilog2 x + 1)"
    using b1 by (simp only: powi_neg_eq) 
  from l u show ?thesis ..
qed

lemma roundEven_error: "\<bar>of_int (roundEven y) - y\<bar> \<le> 1 / 2"
proof -
  define f where "f = \<lfloor>y\<rfloor>"
  define d where "d = y - of_int f"
  have d: "0 \<le> d" "d < 1" unfolding d_def f_def by linarith+
  have y: "y = of_int f + d" by (simp add: d_def)
  have r: "roundEven y =
      (if d < 1 / 2 then f else if 1 / 2 < d then f + 1 else if even f then f else f + 1)"
    by (simp add: roundEven_def Let_def f_def d_def)
  consider "roundEven y = f" "d \<le> 1 / 2" | "roundEven y = f + 1" "1 / 2 \<le> d"
    using r by (auto split: if_splits)
  then show ?thesis
  proof cases
    case 1
    then have "of_int (roundEven y) - y = - d" by (simp add: d_def)
    with d 1 show ?thesis by simp
  next
    case 2
    then have "of_int (roundEven y) - y = 1 - d" by (simp add: d_def)
    with d 2 show ?thesis by simp
  qed
qed

lemma roundEven_of_int: "roundEven (of_int z) = z"
  by (simp add: roundEven_def)

lemma fl_error: "\<bar>fl x - x\<bar> \<le> \<bar>x\<bar> / 2 ^ 53"
proof (cases "x = 0")
  case True
  then show ?thesis by (simp add: fl_def)
next
  case False
  define e where "e = ilog2 x - 52"
  define p where "p = (2::rat) powi e"
  have ppos: "0 < p" by (simp add: p_def)
  have flx: "fl x = of_int (roundEven (x / p)) * p"
    using False by (simp add: fl_def e_def p_def Let_def)
  have "fl x - x = (of_int (roundEven (x / p)) - x / p) * p"
    using ppos by (simp add: flx field_simps)
  then have "\<bar>fl x - x\<bar> = \<bar>of_int (roundEven (x / p)) - x / p\<bar> * p"
    using ppos by (simp add: abs_mult)
  also have "\<dots> \<le> 1 / 2 * p"
    using roundEven_error [of "x / p"] ppos by (simp add: mult_right_mono)
  finally have a: "\<bar>fl x - x\<bar> \<le> p / 2" by simp
  have "ilog2 x = e + 52" by (simp add: e_def)
  then have "2 powi ilog2 x = p * 2 ^ 52"
    by (simp add: p_def power_int_add)
  with ilog2_bounds [OF False] have "p * 2 ^ 52 \<le> \<bar>x\<bar>" by simp
  then have "p / 2 \<le> \<bar>x\<bar> / 2 ^ 53" by simp
  with a show ?thesis by linarith
qed

lemma fl_exact:
  assumes "\<bar>z\<bar> \<le> 2 ^ 53"
  shows "fl (of_int z * 2 powi j) = of_int z * 2 powi j"
proof (cases "z = 0")
  case True
  then show ?thesis by (simp add: fl_def)
next
  case False
  define x where "x = (of_int z :: rat) * 2 powi j"
  define e where "e = ilog2 x - 52"
  have x0: "x \<noteq> 0" using False by (simp add: x_def)
  have flx: "fl x = of_int (roundEven (x / 2 powi e)) * 2 powi e"
    using x0 by (simp add: fl_def e_def Let_def)
  have absx: "\<bar>x\<bar> = of_int \<bar>z\<bar> * 2 powi j"
    by (simp add: x_def abs_mult)
  have "(of_int \<bar>z\<bar> :: rat) \<le> of_int (2 ^ 53)"
    using assms by (simp only: of_int_le_iff)
  then have "\<bar>x\<bar> \<le> 2 ^ 53 * 2 powi j"
    unfolding absx by (simp add: mult_right_mono)
  also have "\<dots> = 2 powi (j + 53)"
    by (simp add: power_int_add)
  finally have up: "\<bar>x\<bar> \<le> 2 powi (j + 53)" .
  have "ilog2 x = e + 52" by (simp add: e_def)
  with ilog2_bounds [OF x0] have low: "2 powi (e + 52) \<le> \<bar>x\<bar>" by simp
  have "\<not> j + 53 < e + 52"
  proof
    assume "j + 53 < e + 52"
    then have "(2::rat) powi (j + 53) < 2 powi (e + 52)"
      by (rule power_int_strict_increasing) simp
    with low up show False by linarith
  qed
  then consider "e \<le> j" | "e = j + 1" by linarith
  then have "fl x = x"
  proof cases
    case 1
    define d where "d = nat (j - e)"
    have "j = e + int d" using 1 by (simp add: d_def)
    then have "(2::rat) powi j = 2 powi e * 2 ^ d"
      by (simp add: power_int_add)
    then have "x / 2 powi e = of_int (z * 2 ^ d)"
      by (simp add: x_def)
    then have "roundEven (x / 2 powi e) = z * 2 ^ d"
      by (simp only: roundEven_of_int)
    then show ?thesis
      unfolding flx using \<open>(2::rat) powi j = 2 powi e * 2 ^ d\<close> by (simp add: x_def)
  next
    case 2
    then have pe: "(2::rat) powi e = 2 powi j * 2"
      by (simp add: power_int_add)
    have "2 powi (j + 53) \<le> \<bar>x\<bar>" using low 2 by (simp add: add.commute)
    then have "(2::rat) ^ 53 * 2 powi j \<le> of_int \<bar>z\<bar> * 2 powi j"
      unfolding absx by (simp add: power_int_add)
    then have "(2::rat) ^ 53 \<le> of_int \<bar>z\<bar>"
      by simp
    then have "(of_int (2 ^ 53) :: rat) \<le> of_int \<bar>z\<bar>" by simp
    then have "2 ^ 53 \<le> \<bar>z\<bar>" by (simp only: of_int_le_iff)
    with assms have "\<bar>z\<bar> = 2 ^ 53" by simp
    then have "even z" by (metis even_abs_add_iff even_add even_numeral even_power zero_less_numeral)
    then obtain w where w: "z = 2 * w" by (auto elim: evenE)
    have "x / 2 powi e = of_int w"
      by (simp add: x_def pe w)
    then have "roundEven (x / 2 powi e) = w"
      by (simp only: roundEven_of_int)
    then show ?thesis
      unfolding flx by (simp add: x_def pe w)
  qed
  then show ?thesis by (simp add: x_def)
qed

lemma fl_of_int: "\<bar>z\<bar> \<le> 2 ^ 53 \<Longrightarrow> fl (of_int z) = of_int z"
  using fl_exact [of z 0] by simp

lemma fl_half: "\<bar>z\<bar> \<le> 2 ^ 53 \<Longrightarrow> fl (of_int z / 2) = of_int z / 2"
  using fl_exact [of z "- 1"] by (simp add: power_int_minus_divide)

text \<open>
  A value computed in two rounded steps rounds to the same integer as the exact value
  \<open>t\<close>, when \<open>t\<close> is farther from every half than the two steps can move it.
\<close>

lemma fl_two_steps: "\<bar>fl (fl a * b) - a * b\<bar> \<le> \<bar>a * b\<bar> * (3 / 2 ^ 53)"
proof -
  define u where "u = (1::rat) / 2 ^ 53"
  have u: "0 < u" "u \<le> 1" by (simp_all add: u_def)
  have e1: "\<bar>fl a - a\<bar> \<le> \<bar>a\<bar> * u"
    using fl_error [of a] by (simp add: u_def)
  have e2: "\<bar>fl (fl a * b) - fl a * b\<bar> \<le> \<bar>fl a * b\<bar> * u"
    using fl_error [of "fl a * b"] by (simp add: u_def)
  have "\<bar>fl a\<bar> \<le> \<bar>a\<bar> + \<bar>a\<bar> * u" using e1 by linarith
  then have "\<bar>fl a\<bar> * \<bar>b\<bar> \<le> (\<bar>a\<bar> + \<bar>a\<bar> * u) * \<bar>b\<bar>"
    by (rule mult_right_mono) simp
  then have f: "\<bar>fl a * b\<bar> \<le> \<bar>a * b\<bar> * (1 + u)"
    by (simp add: abs_mult algebra_simps)
  have "\<bar>fl a * b - a * b\<bar> = \<bar>fl a - a\<bar> * \<bar>b\<bar>"
    by (simp add: abs_mult[symmetric] algebra_simps)
  also have "\<dots> \<le> \<bar>a\<bar> * u * \<bar>b\<bar>"
    using e1 by (rule mult_right_mono) simp
  finally have g: "\<bar>fl a * b - a * b\<bar> \<le> \<bar>a * b\<bar> * u"
    by (simp add: abs_mult algebra_simps)
  have "\<bar>fl a * b\<bar> * u \<le> \<bar>a * b\<bar> * (1 + u) * u"
    using f u by (simp add: mult_right_mono)
  with e2 have h: "\<bar>fl (fl a * b) - fl a * b\<bar> \<le> \<bar>a * b\<bar> * (1 + u) * u" by linarith
  have "\<bar>a * b\<bar> * u * u \<le> \<bar>a * b\<bar> * u * 1"
    using u by (intro mult_left_mono) simp_all
  then have "\<bar>a * b\<bar> * (1 + u) * u + \<bar>a * b\<bar> * u \<le> \<bar>a * b\<bar> * (3 * u)"
    by (simp add: algebra_simps)
  moreover have "\<bar>fl (fl a * b) - a * b\<bar> \<le> \<bar>fl (fl a * b) - fl a * b\<bar> + \<bar>fl a * b - a * b\<bar>"
    by linarith
  ultimately have "\<bar>fl (fl a * b) - a * b\<bar> \<le> \<bar>a * b\<bar> * (3 * u)"
    using g h by linarith
  then show ?thesis by (simp add: u_def)
qed

lemma Math_round_close:
  assumes "\<bar>y - t\<bar> < \<delta>" and "\<And>j::int. \<delta> \<le> \<bar>t - (of_int j + 1 / 2)\<bar>"
  shows "Math_round y = round t"
proof -
  define k where "k = round t"
  have k: "of_int k \<le> t + 1 / 2" "t + 1 / 2 < of_int k + 1"
    unfolding k_def round_def by linarith+
  have "\<delta> \<le> \<bar>t - (of_int (k - 1) + 1 / 2)\<bar>" by (rule assms(2))
  with k have lo: "of_int k - 1 / 2 + \<delta> \<le> t" by simp
  have "\<delta> \<le> \<bar>t - (of_int k + 1 / 2)\<bar>" by (rule assms(2))
  with k have hi: "t + \<delta> \<le> of_int k + 1 / 2" by simp
  have "of_int k \<le> y + 1 / 2" "y + 1 / 2 < of_int k + 1"
    using assms(1) lo hi by linarith+
  then have "\<lfloor>y + 1 / 2\<rfloor> = k" by (simp add: floor_unique)
  then show ?thesis by (simp add: Math_round_def k_def)
qed

lemma half_separation:
  fixes a b :: int
  assumes "0 < b" and "frac (of_int a / of_int b :: rat) \<noteq> 1 / 2"
  shows "1 / (2 * of_int b) \<le> \<bar>(of_int a / of_int b :: rat) - (of_int j + 1 / 2)\<bar>"
proof -
  define w where "w = 2 * a - (2 * j + 1) * b"
  have eq: "(of_int a / of_int b :: rat) - (of_int j + 1 / 2) = of_int w / (2 * of_int b)"
    using assms(1) by (simp add: w_def field_simps)
  have "w \<noteq> 0"
  proof
    assume "w = 0"
    with eq have "(of_int a / of_int b :: rat) = of_int j + 1 / 2" by simp
    then have "frac (of_int a / of_int b :: rat) = frac (of_int j + 1 / 2 :: rat)" by simp
    also have "\<dots> = 1 / 2"
    proof -
      have "\<lfloor>1 / 2 :: rat\<rfloor> = 0" by (rule floor_unique) simp_all
      then show ?thesis by (simp add: frac_def)
    qed
    finally show False using assms(2) by simp
  qed
  then have "1 \<le> \<bar>w\<bar>" by simp
  then have "(1::rat) \<le> of_int \<bar>w\<bar>" by (simp only: of_int_1_le_iff)
  then have "1 / (2 * of_int b) \<le> (of_int \<bar>w\<bar> :: rat) / (2 * of_int b)"
    using assms(1) by (simp add: divide_right_mono)
  then show ?thesis
    unfolding eq using assms(1) by (simp add: abs_mult)
qed

subsection \<open>The statistics\<close>

lemma total_exact:
  assumes "(\<Sum>t\<leftarrow>xs. \<bar>the (completedAt t) - createdAt t\<bar>) + \<bar>a\<bar> \<le> 2 ^ 53"
  shows "foldl (\<lambda>sum t. fl (sum + fl (of_int (the (completedAt t)) - of_int (createdAt t))))
           (of_int a) xs =
         of_int (a + (\<Sum>t\<leftarrow>xs. the (completedAt t) - createdAt t))"
  using assms
proof (induction xs arbitrary: a)
  case Nil
  then show ?case by simp
next
  case (Cons t ts)
  define d where "d = the (completedAt t) - createdAt t"
  have bound: "(\<Sum>t\<leftarrow>ts. \<bar>the (completedAt t) - createdAt t\<bar>) + \<bar>d\<bar> + \<bar>a\<bar> \<le> 2 ^ 53"
    using Cons.prems by (simp add: d_def)
  have nonneg: "0 \<le> (\<Sum>t\<leftarrow>ts. \<bar>the (completedAt t) - createdAt t\<bar>)"
    by (rule sum_list_nonneg) auto
  have "\<bar>d\<bar> \<le> 2 ^ 53" using bound nonneg by linarith
  then have d: "fl (of_int (the (completedAt t)) - of_int (createdAt t)) = of_int d"
    using fl_of_int [of d] by (simp add: d_def)
  have "\<bar>a + d\<bar> \<le> 2 ^ 53" using bound nonneg by linarith
  then have s: "fl (of_int a + of_int d) = of_int (a + d)"
    using fl_of_int [of "a + d"] by simp
  have "(\<Sum>t\<leftarrow>ts. \<bar>the (completedAt t) - createdAt t\<bar>) + \<bar>a + d\<bar> \<le> 2 ^ 53"
    using bound by linarith
  then have "foldl (\<lambda>sum t. fl (sum + fl (of_int (the (completedAt t)) - of_int (createdAt t))))
           (of_int (a + d)) ts =
         of_int (a + d + (\<Sum>t\<leftarrow>ts. the (completedAt t) - createdAt t))"
    by (rule Cons.IH)
  then show ?case
    by (simp add: d s d_def[symmetric] add.assoc)
qed

lemma rate_round:
  fixes c n :: nat
  assumes "0 < n" and "n < 2 ^ 40" and "c \<le> n"
    and "frac (of_nat c / of_nat n * 100 :: rat) \<noteq> 1 / 2"
  shows "Math_round (fl (fl (of_nat c / of_nat n) * 100)) = round (of_nat c / of_nat n * 100 :: rat)"
proof (rule Math_round_close)
  define t where "t = (of_nat c / of_nat n * 100 :: rat)"
  have t: "t = of_int (100 * int c) / of_int (int n)" by (simp add: t_def)
  define r where "r = (of_nat c / of_nat n :: rat)"
  have "0 \<le> r" "r \<le> 1" using assms(1,3) by (simp_all add: r_def)
  moreover have "t = r * 100" by (simp add: t_def r_def)
  ultimately have t100: "\<bar>t\<bar> \<le> 100" by simp
  have "\<bar>fl (fl (of_nat c / of_nat n) * 100) - t\<bar> \<le> \<bar>t\<bar> * (3 / 2 ^ 53)"
    unfolding t_def by (rule fl_two_steps)
  also have "\<dots> \<le> 100 * (3 / 2 ^ 53)"
    using t100 by (simp add: mult_right_mono)
  also have "\<dots> < 1 / 2 ^ 41" by simp
  also have "\<dots> \<le> 1 / (2 * of_nat n)"
  proof -
    have "int n < 2 ^ 40" using assms(2) by (metis of_nat_less_iff of_nat_numeral of_nat_power)
    then have "(of_int (int n) :: rat) < of_int (2 ^ 40)" by (simp only: of_int_less_iff)
    then have "2 * (of_nat n :: rat) \<le> 2 ^ 41" by simp
    then show ?thesis using assms(1) by (simp add: frac_le)
  qed
  finally show "\<bar>fl (fl (of_nat c / of_nat n) * 100) - of_nat c / of_nat n * 100\<bar> < 1 / (2 * of_nat n)"
    by (simp add: t_def)
  fix j :: int
  have eq: "(of_nat c / of_nat n * 100 :: rat) = of_int (100 * int c) / of_int (int n)"
    by simp
  have "0 < int n" using assms(1) by simp
  moreover have "frac (of_int (100 * int c) / of_int (int n) :: rat) \<noteq> 1 / 2"
    using assms(4) unfolding eq .
  ultimately have "1 / (2 * of_int (int n)) \<le> \<bar>(of_int (100 * int c) / of_int (int n) :: rat) - (of_int j + 1 / 2)\<bar>"
    by (rule half_separation)
  then show "1 / (2 * of_nat n) \<le> \<bar>of_nat c / of_nat n * 100 - (rat_of_int j + 1 / 2)\<bar>"
    unfolding eq by simp
qed

lemma avg_round:
  fixes T :: int and k :: nat
  assumes "0 < k" and "\<bar>T\<bar> < 2 ^ 50"
  shows "Math_round (fl (fl (of_int T / of_nat k) / 3600000)) =
         round (of_int T / of_nat k / 3600000 :: rat)"
proof -
  define t where "t = (of_int T / of_nat k / 3600000 :: rat)"
  define K where "K = int k * 3600000"
  have Kpos: "0 < K" using assms(1) by (simp add: K_def)
  have tK: "t = of_int T / of_int K" by (simp add: t_def K_def)
  have absT: "\<bar>of_int T :: rat\<bar> < 2 ^ 50"
  proof -
    have "(of_int \<bar>T\<bar> :: rat) < of_int (2 ^ 50)" using assms(2) by (simp only: of_int_less_iff)
    then show ?thesis by simp
  qed
  show ?thesis
  proof (cases "frac t = 1 / 2")
    case True
    define j where "j = \<lfloor>t\<rfloor>"
    define w where "w = (2 * j + 1) * 1800000"
    have tj: "t = of_int j + 1 / 2" using True by (simp add: frac_def j_def)
    have q: "(of_int T / of_nat k :: rat) = of_int w"
    proof -
      have "(of_int T / of_nat k :: rat) = t * 3600000" by (simp add: t_def)
      then show ?thesis by (simp add: tj w_def algebra_simps)
    qed
    have k1: "(1::rat) \<le> of_nat k" using assms(1) by simp
    have "\<bar>of_int w :: rat\<bar> = \<bar>of_int T / of_nat k :: rat\<bar>"
      unfolding q ..
    also have "\<dots> = \<bar>of_int T\<bar> / of_nat k"
      by simp
    also have "\<dots> \<le> \<bar>of_int T\<bar> / 1"
      using k1 by (intro divide_left_mono) simp_all
    finally have "(of_int \<bar>w\<bar> :: rat) \<le> of_int \<bar>T\<bar>" by simp
    then have wT: "\<bar>w\<bar> \<le> \<bar>T\<bar>" by (simp only: of_int_le_iff)
    then have "\<bar>w\<bar> \<le> 2 ^ 53" using assms(2) by simp
    then have m: "fl (of_int T / of_nat k) = of_int w"
      unfolding q by (rule fl_of_int)
    have "\<bar>2 * j + 1\<bar> \<le> \<bar>w\<bar>" by (simp add: w_def abs_mult)
    then have "\<bar>2 * j + 1\<bar> \<le> 2 ^ 53" using wT assms(2) by simp
    then have h: "fl (of_int (2 * j + 1) / 2) = of_int (2 * j + 1) / 2"
      by (rule fl_half)
    have w2: "(of_int w / 3600000 :: rat) = of_int (2 * j + 1) / 2"
      by (simp add: w_def)
    have "fl (fl (of_int T / of_nat k) / 3600000) = fl (of_int w / 3600000)"
      by (simp only: m)
    also have "\<dots> = fl (of_int (2 * j + 1) / 2)"
      by (simp only: w2)
    also have "\<dots> = of_int (2 * j + 1) / 2"
      by (rule h)
    also have "\<dots> = of_int j + 1 / 2" by simp
    finally have "Math_round (fl (fl (of_int T / of_nat k) / 3600000)) = \<lfloor>(of_int (j + 1) :: rat)\<rfloor>"
      by (simp add: Math_round_def)
    moreover have "round t = \<lfloor>(of_int (j + 1) :: rat)\<rfloor>"
      by (simp add: round_def tj)
    ultimately show ?thesis by (simp add: t_def)
  next
    case False
    have "Math_round (fl (fl (of_int T / of_nat k) * (1 / 3600000))) = round t"
    proof (rule Math_round_close)
      have tm: "of_int T / of_nat k * (1 / 3600000) = t" by (simp add: t_def)
      have "\<bar>fl (fl (of_int T / of_nat k) * (1 / 3600000)) - t\<bar> \<le> \<bar>t\<bar> * (3 / 2 ^ 53)"
        using fl_two_steps [of "of_int T / of_nat k" "1 / 3600000"] unfolding tm .
      also have "\<dots> = \<bar>of_int T\<bar> * 3 / (2 ^ 53 * of_int K)"
        using Kpos by (simp add: tK abs_divide)
      also have "\<dots> < 2 ^ 50 * 3 / (2 ^ 53 * of_int K)"
        using absT Kpos by (intro divide_strict_right_mono mult_strict_right_mono) simp_all
      also have "\<dots> \<le> 1 / (2 * of_int K)"
        using Kpos by (simp add: field_simps)
      finally show "\<bar>fl (fl (of_int T / of_nat k) * (1 / 3600000)) - t\<bar> < 1 / (2 * of_int K)" .
      fix j :: int
      have "frac (of_int T / of_int K :: rat) \<noteq> 1 / 2" using False unfolding tK .
      with Kpos show "1 / (2 * of_int K) \<le> \<bar>t - (rat_of_int j + 1 / 2)\<bar>"
        unfolding tK by (rule half_separation)
    qed
    then show ?thesis by (simp add: t_def)
  qed
qed

lemma abs_sum_list_le: "\<bar>\<Sum>t\<leftarrow>xs. (f t :: int)\<bar> \<le> (\<Sum>t\<leftarrow>xs. \<bar>f t\<bar>)"
  by (induction xs) auto

lemma completionRate_round:
  assumes "0 < totalTasks s" and "totalTasks s < 2 ^ 40"
    and "frac (of_nat (completedCount s) / of_nat (totalTasks s) * 100 :: rat) \<noteq> 1 / 2"
  shows "completionRate s = round (of_nat (completedCount s) / of_nat (totalTasks s) * 100 :: rat)"
proof -
  have "completedCount s \<le> totalTasks s"
    by (simp add: completedCount_def totalTasks_def)
  with assms have "Math_round (fl (fl (of_nat (completedCount s) / of_nat (totalTasks s)) * 100)) =
      round (of_nat (completedCount s) / of_nat (totalTasks s) * 100 :: rat)"
    by (intro rate_round)
  then show ?thesis using assms(1) by (simp add: completionRate_def)
qed

lemma avgCompletionTime_round:
  assumes "completedWithTime s \<noteq> []"
    and "(\<Sum>t\<leftarrow>completedWithTime s. \<bar>the (completedAt t) - createdAt t\<bar>) < 2 ^ 50"
  shows "avgCompletionTime s =
     round (of_int (\<Sum>t\<leftarrow>completedWithTime s. the (completedAt t) - createdAt t)
              / of_nat (length (completedWithTime s)) / 3600000 :: rat)"
proof -
  define xs where "xs = completedWithTime s"
  define T where "T = (\<Sum>t\<leftarrow>xs. the (completedAt t) - createdAt t)"
  have len: "0 < length xs" using assms(1) by (simp add: xs_def)
  have small: "(\<Sum>t\<leftarrow>xs. \<bar>the (completedAt t) - createdAt t\<bar>) < 2 ^ 50"
    using assms(2) by (simp add: xs_def)
  then have "(\<Sum>t\<leftarrow>xs. \<bar>the (completedAt t) - createdAt t\<bar>) + \<bar>0::int\<bar> \<le> 2 ^ 53"
    by simp
  then have "foldl (\<lambda>sum t. fl (sum + fl (of_int (the (completedAt t)) - of_int (createdAt t))))
           (of_int 0) xs = of_int (0 + T)"
    unfolding T_def by (rule total_exact)
  then have total: "foldl (\<lambda>sum t. fl (sum + fl (of_int (the (completedAt t)) - of_int (createdAt t))))
           0 xs = of_int T"
    by simp
  have "\<bar>T\<bar> \<le> (\<Sum>t\<leftarrow>xs. \<bar>the (completedAt t) - createdAt t\<bar>)"
    unfolding T_def by (rule abs_sum_list_le)
  with small have "\<bar>T\<bar> < 2 ^ 50" by linarith
  with len have "Math_round (fl (fl (of_int T / of_nat (length xs)) / 3600000)) =
         round (of_int T / of_nat (length xs) / 3600000 :: rat)"
    by (rule avg_round)
  then show ?thesis
    using len by (simp add: avgCompletionTime_def Let_def total xs_def[symmetric] T_def[symmetric])
qed

lemma statistics_example: "completionRate quarterState = 25 \<and> avgCompletionTime quarterState = 2"
  by code_simp

text \<open>
  Claim C7, as amended. Without tasks the completion rate is 0. With tasks (fewer than
  \<open>2 ^ 40\<close>) it is \<open>completedCount / totalTasks * 100\<close> rounded to the nearest integer,
  whenever that value does not lie halfway between two integers; nothing is said of the
  halves. The average completion time is 0 when no completed task has a \<open>completedAt\<close>
  that is set and not 0; otherwise it is the mean of \<open>completedAt - createdAt\<close> over these
  tasks, divided by 3 600 000 and rounded to the nearest integer, halves upwards (for
  durations whose absolute values sum to less than \<open>2 ^ 50\<close> milliseconds, some 35 000
  years). The four tasks of the example give 25 and 2.
\<close>

theorem statistics_rounding:
  "(totalTasks s = 0 \<longrightarrow> completionRate s = 0)
   \<and> (0 < totalTasks s \<and> totalTasks s < 2 ^ 40
        \<and> frac (of_nat (completedCount s) / of_nat (totalTasks s) * 100 :: rat) \<noteq> 1 / 2
      \<longrightarrow> completionRate s = round (of_nat (completedCount s) / of_nat (totalTasks s) * 100 :: rat))
   \<and> (completedWithTime s = [] \<longrightarrow> avgCompletionTime s = 0)
   \<and> (completedWithTime s \<noteq> []
        \<and> (\<Sum>t\<leftarrow>completedWithTime s. \<bar>the (completedAt t) - createdAt t\<bar>) < 2 ^ 50
      \<longrightarrow> avgCompletionTime s =
            round (of_int (\<Sum>t\<leftarrow>completedWithTime s. the (completedAt t) - createdAt t)
                     / of_nat (length (completedWithTime s)) / 3600000 :: rat))
   \<and> completionRate quarterState = 25 \<and> avgCompletionTime quarterState = 2"
proof -
  have a: "totalTasks s = 0 \<longrightarrow> completionRate s = 0"
    by (simp add: completionRate_def)
  have c: "completedWithTime s = [] \<longrightarrow> avgCompletionTime s = 0"
    by (simp add: avgCompletionTime_def)
  show ?thesis
    using a c completionRate_round [of s] avgCompletionTime_round [of s] statistics_example
    by blast
qed

theorem statistics_rounding_witness:
  "completionRate exampleState = 50 \<and> avgCompletionTime exampleState = 0
   \<and> completionRate initialState = 0 \<and> avgCompletionTime initialState = 0"
proof -
  have n: "totalTasks exampleState = 2" "completedCount exampleState = 1"
    "completedWithTime exampleState = [rentTask]" "totalTasks initialState = 0"
    "completedWithTime initialState = []"
    by (simp_all add: totalTasks_def completedCount_def completedWithTime_def exampleState_def
        initialState_def rentTask_def milkTask_def truthy_def)
  have f: "frac (1 / 2 * 100 :: rat) \<noteq> 1 / 2" "round (1 / 2 * 100 :: rat) = 50"
    "round (50 / 3600000 :: rat) = 0"
    by code_simp+
  have d: "the (completedAt rentTask) - createdAt rentTask = 50"
    by (simp add: rentTask_def)
  show ?thesis
    using statistics_rounding [of exampleState] statistics_rounding [of initialState] f
    by (simp add: n d)
qed

text \<open>
  Claim C7 as it is stated fails in two places. With 23 of 40 tasks completed the rate is
  57.5 and rounds to 58, but the double nearest to \<open>23 / 40\<close> times 100 is the double just
  below 57.5, and \<open>completionRate\<close> is 57. And a completed task whose \<open>completedAt\<close> is
  the time 0 is left out of the average: \<open>earlyTask\<close> took one hour, and
  \<open>avgCompletionTime\<close> is 0.
\<close>

theorem statistics_rounding_counterexample:
  "totalTasks fortyState = 40 \<and> completedCount fortyState = 23
   \<and> completionRate fortyState = 57
   \<and> round (of_nat (completedCount fortyState) / of_nat (totalTasks fortyState) * 100 :: rat) = 58
   \<and> completedWithTime (initialState\<lparr>todos := [earlyTask]\<rparr>) = []
   \<and> completed earlyTask \<and> completedAt earlyTask = Some 0 \<and> createdAt earlyTask = - 3600000
   \<and> avgCompletionTime (initialState\<lparr>todos := [earlyTask]\<rparr>) = 0
   \<and> round (of_int (0 - (- 3600000)) / 1 / 3600000 :: rat) = 1"
  by code_simp

end
